theory Spec2Isabelle
  imports Main "HOL-Library.Sublist" "HOL-Library.Word"
begin

section \<open>Python values\<close>

text \<open>
  A Python \<^verbatim>\<open>str\<close> is a sequence of Unicode code points. The replacement texts of the
  rule catalogue are Japanese, so a character is modelled by its code point and a string
  by the list of its code points. \<open>ascii\<close> embeds an ASCII literal.
\<close>

type_synonym codepoint = nat
type_synonym str = "codepoint list"

definition ascii :: "string \<Rightarrow> str" where
  "ascii cs = map of_char cs"

text \<open>
  \<^verbatim>\<open>str.strip()\<close> without argument removes leading and trailing whitespace; the
  whitespace characters are the ones CPython's \<^verbatim>\<open>str.isspace\<close> accepts.
\<close>

definition isspace :: "codepoint \<Rightarrow> bool" where
  "isspace c =
     ((0x09 \<le> c \<and> c \<le> 0x0D) \<or> (0x1C \<le> c \<and> c \<le> 0x20) \<or> c = 0x85 \<or> c = 0xA0 \<or>
      c = 0x1680 \<or> (0x2000 \<le> c \<and> c \<le> 0x200A) \<or> c = 0x2028 \<or> c = 0x2029 \<or>
      c = 0x202F \<or> c = 0x205F \<or> c = 0x3000)"

definition strip :: "str \<Rightarrow> str" where
  "strip s = rev (dropWhile isspace (rev (dropWhile isspace s)))"

text \<open>
  \<^verbatim>\<open>s.replace(old, new)\<close>: every non-overlapping occurrence of \<open>old\<close>, found from
  the left, is replaced; an empty \<open>old\<close> matches before every character and at the end.
\<close>

fun replace_from :: "str \<Rightarrow> str \<Rightarrow> str \<Rightarrow> str" where
  "replace_from old new [] = []"
| "replace_from old new (c # cs) =
     (if prefix old (c # cs) then new @ replace_from old new (drop (length old - 1) cs)
      else c # replace_from old new cs)"

definition replace :: "str \<Rightarrow> str \<Rightarrow> str \<Rightarrow> str" where
  "replace s old new =
     (if old = [] then new @ concat (map (\<lambda>c. c # new) s) else replace_from old new s)"

text \<open>
  A \<^verbatim>\<open>dict\<close> keeps its keys in insertion order: an association list. \<open>dict_set\<close> is
  \<^verbatim>\<open>d[k] = v\<close> (an existing key keeps its position), \<open>dict_get\<close> is
  \<^verbatim>\<open>d.get(k, default)\<close>.
\<close>

type_synonym ('k, 'v) dict = "('k \<times> 'v) list"

fun dict_set :: "('k, 'v) dict \<Rightarrow> 'k \<Rightarrow> 'v \<Rightarrow> ('k, 'v) dict" where
  "dict_set [] k v = [(k, v)]"
| "dict_set ((k', v') # d) k v =
     (if k' = k then (k', v) # d else (k', v') # dict_set d k v)"

definition dict_get :: "('k, 'v) dict \<Rightarrow> 'k \<Rightarrow> 'v \<Rightarrow> 'v" where
  "dict_get d k dflt = (case map_of d k of None \<Rightarrow> dflt | Some v \<Rightarrow> v)"

type_synonym glossary = "(str, str) dict"

section \<open>load_glossary\<close>

text \<open>
  \<^verbatim>\<open>
  def load_glossary(p: Path):
      d = {}
      if not p.exists(): return d
      for row in csv.DictReader(p.open(encoding="utf-8")):
          en = row.get("en","").strip()
          ja = row.get("ja","").strip()
          if en and ja: d[en] = ja
      return d
  \<close>
  The file is given as the records \<^verbatim>\<open>csv.reader\<close> tokenises it into (\<open>None\<close> when the
  path does not exist). \<^verbatim>\<open>csv.DictReader\<close> takes the first record as the field names,
  drops the records that are \<^verbatim>\<open>[]\<close> (blank lines), and turns every other record into
  \<^verbatim>\<open>dict(zip(fieldnames, row))\<close>; the field names a short record has no value for are
  then set to \<^verbatim>\<open>restval\<close>, which is Python's \<^verbatim>\<open>None\<close>. The surplus values of a long record
  go under the key \<^verbatim>\<open>None\<close>, which no lookup of a string key reaches: it is left out. A
  field value is therefore a \<open>str option\<close>, and \<^verbatim>\<open>.strip()\<close> on \<^verbatim>\<open>None\<close> raises
  \<^verbatim>\<open>AttributeError\<close>.
\<close>

datatype pyerror = AttributeError

definition dict_reader_row :: "str list \<Rightarrow> str list \<Rightarrow> (str, str option) dict" where
  "dict_reader_row fieldnames row =
     (let d = fold (\<lambda>(k, v) d. dict_set d k (Some v)) (zip fieldnames row) [];
          lf = length fieldnames;
          lr = length row
      in if lf > lr then fold (\<lambda>key d. dict_set d key None) (drop lr fieldnames) d else d)"

fun load_rows :: "str list \<Rightarrow> str list list \<Rightarrow> glossary \<Rightarrow> pyerror + glossary" where
  "load_rows fieldnames [] d = Inr d"
| "load_rows fieldnames (rec # recs) d =
     (if rec = [] then load_rows fieldnames recs d
      else
        let row = dict_reader_row fieldnames rec in
        case dict_get row (ascii ''en'') (Some []) of
          None \<Rightarrow> Inl AttributeError
        | Some e \<Rightarrow>
            (case dict_get row (ascii ''ja'') (Some []) of
               None \<Rightarrow> Inl AttributeError
             | Some j \<Rightarrow>
                 let en = strip e; ja = strip j
                 in load_rows fieldnames recs (if en \<noteq> [] \<and> ja \<noteq> [] then dict_set d en ja else d)))"

definition load_glossary :: "str list list option \<Rightarrow> pyerror + glossary" where
  "load_glossary p =
     (case p of
        None \<Rightarrow> Inr []
      | Some [] \<Rightarrow> Inr []
      | Some (fieldnames # recs) \<Rightarrow> load_rows fieldnames recs [])"

section \<open>split_md_blocks\<close>

text \<open>
  \<^verbatim>\<open>
  def split_md_blocks(text: str):
      parts = re.split(r"(```.*?```)", text, flags=re.DOTALL)
      for i, part in enumerate(parts):
          if i % 2 == 1:
              yield ("code", part)
          else:
              yield ("text", part)
  \<close>
  The pattern is three backticks, the shortest run of any characters, three backticks.
  \<open>find_fence\<close> is the lazy \<^verbatim>\<open>.*?```\<close>: the text up to the first fence and the text after
  it. \<open>match_here\<close> matches the whole pattern at the head of a string, \<open>search\<close> tries
  every start position from the left, and \<open>re_split\<close> cuts at each match, keeping the
  matched text because the pattern is one capturing group.
\<close>

datatype kind = Code | Text

definition fence :: str where
  "fence = ascii ''```''"

fun find_fence :: "str \<Rightarrow> (str \<times> str) option" where
  "find_fence [] = None"
| "find_fence (c # cs) =
     (if prefix fence (c # cs) then Some ([], drop 3 (c # cs))
      else map_option (\<lambda>(a, b). (c # a, b)) (find_fence cs))"

definition match_here :: "str \<Rightarrow> (str \<times> str) option" where
  "match_here s =
     (if prefix fence s
      then (case find_fence (drop 3 s) of
              None \<Rightarrow> None
            | Some (body, rest) \<Rightarrow> Some (fence @ body @ fence, rest))
      else None)"

fun search :: "str \<Rightarrow> (str \<times> str \<times> str) option" where
  "search [] = None"
| "search (c # cs) =
     (case match_here (c # cs) of
        Some (m, rest) \<Rightarrow> Some ([], m, rest)
      | None \<Rightarrow> map_option (\<lambda>(p, m, rest). (c # p, m, rest)) (search cs))"

lemma length_fence: "length fence = 3"
  by (simp add: fence_def ascii_def)

lemma find_fence_Some: "find_fence s = Some (a, b) \<Longrightarrow> s = a @ fence @ b"
proof (induction s arbitrary: a b)
  case Nil
  then show ?case by simp
next
  case (Cons c cs)
  show ?case
  proof (cases "prefix fence (c # cs)")
    case True
    then obtain r where r: "c # cs = fence @ r" by (auto simp: prefix_def)
    from True Cons.prems have "a = []" "b = drop 3 (c # cs)" by auto
    moreover have "drop 3 (c # cs) = r" unfolding r by (simp add: length_fence)
    ultimately show ?thesis using r by simp
  next
    case False
    with Cons.prems obtain a' where "find_fence cs = Some (a', b)" "a = c # a'"
      by (auto split: prod.splits)
    with Cons.IH show ?thesis by simp
  qed
qed

lemma match_here_Some:
  "match_here s = Some (m, r) \<Longrightarrow> s = m @ r \<and> (\<exists>body. m = fence @ body @ fence)"
  by (auto simp: match_here_def prefix_def length_fence
      split: if_splits option.splits dest!: find_fence_Some)

lemma search_Some:
  "search s = Some (p, m, r) \<Longrightarrow> s = p @ m @ r \<and> (\<exists>body. m = fence @ body @ fence)"
proof (induction s arbitrary: p)
  case Nil
  then show ?case by simp
next
  case (Cons c cs)
  then show ?case
    by (cases "match_here (c # cs)") (auto dest: match_here_Some)
qed

lemma search_shorter: "search s = Some (p, m, r) \<Longrightarrow> length r < length s"
  by (auto dest!: search_Some simp: length_fence)

function re_split :: "str \<Rightarrow> str list" where
  "re_split s =
     (case search s of
        None \<Rightarrow> [s]
      | Some (p, m, rest) \<Rightarrow> p # m # re_split rest)"
  by pat_completeness auto
termination
  by (relation "measure length") (auto dest: search_shorter)

fun enumerate_parts :: "nat \<Rightarrow> str list \<Rightarrow> (kind \<times> str) list" where
  "enumerate_parts i [] = []"
| "enumerate_parts i (part # parts) =
     (if i mod 2 = 1 then (Code, part) else (Text, part)) # enumerate_parts (Suc i) parts"

definition split_md_blocks :: "str \<Rightarrow> (kind \<times> str) list" where
  "split_md_blocks text = enumerate_parts 0 (re_split text)"

section \<open>rule_based_translate\<close>

text \<open>
  Every pattern of the catalogue has the shape \<^verbatim>\<open>\bLITERAL(SUFFIX)?\b\<close> (the optional
  group is absent in a few, and is written \<^verbatim>\<open>s?\<close>, \<^verbatim>\<open>(?:s)?\<close> or \<^verbatim>\<open>(s)?\<close>: no
  replacement refers to a group), and is applied with \<^verbatim>\<open>re.IGNORECASE\<close>. A rule is
  the literal, the optional suffix and the replacement text.

  \<^verbatim>\<open>\w\<close> on a \<^verbatim>\<open>str\<close> is \<^verbatim>\<open>[a-zA-Z0-9_]\<close> on ASCII and, beyond ASCII, whatever
  \<^verbatim>\<open>str.isalnum\<close> accepts; that part of the Unicode database is the parameter \<open>ua\<close>.
  \<^verbatim>\<open>\b\<close> holds between two positions of which exactly one is a word character (the
  outside of the string is not one).
\<close>

definition ascii_upper :: "codepoint \<Rightarrow> bool" where
  "ascii_upper c = (0x41 \<le> c \<and> c \<le> 0x5A)"

definition ascii_lower :: "codepoint \<Rightarrow> bool" where
  "ascii_lower c = (0x61 \<le> c \<and> c \<le> 0x7A)"

definition ascii_digit :: "codepoint \<Rightarrow> bool" where
  "ascii_digit c = (0x30 \<le> c \<and> c \<le> 0x39)"

definition is_word :: "(codepoint \<Rightarrow> bool) \<Rightarrow> codepoint \<Rightarrow> bool" where
  "is_word ua c =
     (if c < 0x80 then ascii_upper c \<or> ascii_lower c \<or> ascii_digit c \<or> c = 0x5F else ua c)"

definition word_at :: "(codepoint \<Rightarrow> bool) \<Rightarrow> codepoint option \<Rightarrow> bool" where
  "word_at ua x = (case x of None \<Rightarrow> False | Some c \<Rightarrow> is_word ua c)"

definition boundary :: "(codepoint \<Rightarrow> bool) \<Rightarrow> codepoint option \<Rightarrow> codepoint option \<Rightarrow> bool" where
  "boundary ua prev nxt = (word_at ua prev \<noteq> word_at ua nxt)"

text \<open>
  Under \<^verbatim>\<open>re.IGNORECASE\<close> a letter of the pattern matches the characters that lower-case
  to it. For an ASCII letter these are its two cases and, for \<^verbatim>\<open>i\<close>, \<^verbatim>\<open>s\<close> and \<^verbatim>\<open>k\<close>,
  the four letters U+0130, U+0131, U+017F and U+212A. Any other pattern character (the
  space of \<^verbatim>\<open>pull request\<close>) matches itself only.
\<close>

definition to_lower :: "codepoint \<Rightarrow> codepoint" where
  "to_lower c = (if ascii_upper c then c + 0x20 else c)"

definition matches_ci :: "codepoint \<Rightarrow> codepoint \<Rightarrow> bool" where
  "matches_ci p c =
     (if ascii_upper p \<or> ascii_lower p
      then to_lower c = to_lower p \<or>
           (to_lower p = 0x69 \<and> (c = 0x130 \<or> c = 0x131)) \<or>
           (to_lower p = 0x73 \<and> c = 0x17F) \<or>
           (to_lower p = 0x6B \<and> c = 0x212A)
      else c = p)"

fun prefix_ci :: "str \<Rightarrow> str \<Rightarrow> bool" where
  "prefix_ci [] s = True"
| "prefix_ci (p # ps) [] = False"
| "prefix_ci (p # ps) (c # cs) = (matches_ci p c \<and> prefix_ci ps cs)"

datatype rule = Rule (lit: str) (suffix: "str option") (rep: str)

definition head :: "str \<Rightarrow> codepoint option" where
  "head s = (case s of [] \<Rightarrow> None | c # _ \<Rightarrow> Some c)"

text \<open>
  \<open>boundary_at ua prev s k\<close> is \<^verbatim>\<open>\b\<close> at offset \<open>k\<close> of \<open>s\<close>, where \<open>prev\<close> is the
  character in front of \<open>s\<close>. \<open>match_rule\<close> is the match of one pattern at the head of
  \<open>s\<close>, as the length matched: the optional suffix is greedy, so it is taken when the
  closing \<^verbatim>\<open>\b\<close> holds behind it and given up otherwise.
\<close>

definition boundary_at :: "(codepoint \<Rightarrow> bool) \<Rightarrow> codepoint option \<Rightarrow> str \<Rightarrow> nat \<Rightarrow> bool" where
  "boundary_at ua prev s k =
     boundary ua (if k = 0 then prev else head (drop (k - 1) s)) (head (drop k s))"

definition match_rule :: "(codepoint \<Rightarrow> bool) \<Rightarrow> rule \<Rightarrow> codepoint option \<Rightarrow> str \<Rightarrow> nat option" where
  "match_rule ua r prev s =
     (let n = length (lit r) in
      if boundary_at ua prev s 0 \<and> prefix_ci (lit r) s then
        (case suffix r of
           Some suf \<Rightarrow>
             if prefix_ci suf (drop n s) \<and> boundary_at ua prev s (n + length suf)
             then Some (n + length suf)
             else if boundary_at ua prev s n then Some n else None
         | None \<Rightarrow> if boundary_at ua prev s n then Some n else None)
      else None)"

text \<open>
  \<^verbatim>\<open>re.sub(pat, rep, out, flags=re.IGNORECASE)\<close>: the matches are found from the left and
  do not overlap. Every literal of the catalogue is non-empty, so a match consumes at
  least one character: \<open>drop (n - 1) cs\<close> is what follows a match of length \<open>n\<close>. No
  replacement contains a backslash, so each is inserted as it is.
\<close>

fun re_sub :: "(codepoint \<Rightarrow> bool) \<Rightarrow> rule \<Rightarrow> codepoint option \<Rightarrow> str \<Rightarrow> str" where
  "re_sub ua r prev [] = []"
| "re_sub ua r prev (c # cs) =
     (case match_rule ua r prev (c # cs) of
        Some n \<Rightarrow> rep r @ re_sub ua r (head (drop (n - 1) (c # cs))) (drop (n - 1) cs)
      | None \<Rightarrow> c # re_sub ua r (Some c) cs)"

definition reps :: "rule list" where
  "reps = [
    Rule (ascii ''Execute'') (Some (ascii ''s'')) [0x5B9F, 0x884C, 0x3057, 0x307E, 0x3059],
    Rule (ascii ''Search'') (Some (ascii ''es'')) [0x691C, 0x7D22, 0x3057, 0x307E, 0x3059],
    Rule (ascii ''Create'') (Some (ascii ''s'')) [0x4F5C, 0x6210, 0x3057, 0x307E, 0x3059],
    Rule (ascii ''Open'') (Some (ascii ''s'')) [0x958B, 0x304D, 0x307E, 0x3059],
    Rule (ascii ''Read'') (Some (ascii ''s'')) [0x8AAD, 0x307F, 0x53D6, 0x308A, 0x307E, 0x3059],
    Rule (ascii ''Write'') (Some (ascii ''s'')) [0x66F8, 0x304D, 0x8FBC, 0x307F, 0x307E, 0x3059],
    Rule (ascii ''Update'') (Some (ascii ''s'')) [0x66F4, 0x65B0, 0x3057, 0x307E, 0x3059],
    Rule (ascii ''Delete'') (Some (ascii ''s'')) [0x524A, 0x9664, 0x3057, 0x307E, 0x3059],
    Rule (ascii ''List'') (Some (ascii ''s'')) [0x4E00, 0x89A7, 0x3092, 0x53D6, 0x5F97, 0x3057, 0x307E, 0x3059],
    Rule (ascii ''Return'') (Some (ascii ''s'')) [0x8FD4, 0x3057, 0x307E, 0x3059],
    Rule (ascii ''Check'') (Some (ascii ''s'')) [0x78BA, 0x8A8D, 0x3057, 0x307E, 0x3059],
    Rule (ascii ''Validate'') (Some (ascii ''s'')) [0x691C, 0x8A3C, 0x3057, 0x307E, 0x3059],
    Rule (ascii ''Generate'') (Some (ascii ''s'')) [0x751F, 0x6210, 0x3057, 0x307E, 0x3059],
    Rule (ascii ''Upload'') (Some (ascii ''s'')) [0x30A2, 0x30C3, 0x30D7, 0x30ED, 0x30FC, 0x30C9, 0x3057, 0x307E, 0x3059],
    Rule (ascii ''Download'') (Some (ascii ''s'')) [0x30C0, 0x30A6, 0x30F3, 0x30ED, 0x30FC, 0x30C9, 0x3057, 0x307E, 0x3059],
    Rule (ascii ''Convert'') (Some (ascii ''s'')) [0x5909, 0x63DB, 0x3057, 0x307E, 0x3059],
    Rule (ascii ''Compare'') (Some (ascii ''s'')) [0x6BD4, 0x8F03, 0x3057, 0x307E, 0x3059],
    Rule (ascii ''Extract'') (Some (ascii ''s'')) [0x62BD, 0x51FA, 0x3057, 0x307E, 0x3059],
    Rule (ascii ''Filter'') (Some (ascii ''s'')) [0x30D5, 0x30A3, 0x30EB, 0x30BF, 0x3057, 0x307E, 0x3059],
    Rule (ascii ''Sort'') (Some (ascii ''s'')) [0x30BD, 0x30FC, 0x30C8, 0x3057, 0x307E, 0x3059],
    Rule (ascii ''Summarize'') (Some (ascii ''s'')) [0x8981, 0x7D04, 0x3057, 0x307E, 0x3059],
    Rule (ascii ''Translate'') (Some (ascii ''s'')) [0x7FFB, 0x8A33, 0x3057, 0x307E, 0x3059],
    Rule (ascii ''Analyze'') (Some (ascii ''s'')) [0x5206, 0x6790, 0x3057, 0x307E, 0x3059],
    Rule (ascii ''Schedule'') (Some (ascii ''s'')) [0x30B9, 0x30B1, 0x30B8, 0x30E5, 0x30FC, 0x30EB, 0x3057, 0x307E, 0x3059],
    Rule (ascii ''Notify'') (Some (ascii ''ies'')) [0x901A, 0x77E5, 0x3057, 0x307E, 0x3059],
    Rule (ascii ''file'') (Some (ascii ''s'')) [0x30D5, 0x30A1, 0x30A4, 0x30EB],
    Rule (ascii ''folder'') (Some (ascii ''s'')) [0x30D5, 0x30A9, 0x30EB, 0x30C0],
    Rule (ascii ''directory'') (Some (ascii ''ies'')) [0x30C7, 0x30A3, 0x30EC, 0x30AF, 0x30C8, 0x30EA],
    Rule (ascii ''path'') (Some (ascii ''s'')) [0x30D1, 0x30B9],
    Rule (ascii ''command'') (Some (ascii ''s'')) [0x30B3, 0x30DE, 0x30F3, 0x30C9],
    Rule (ascii ''script'') (Some (ascii ''s'')) [0x30B9, 0x30AF, 0x30EA, 0x30D7, 0x30C8],
    Rule (ascii ''repository'') None [0x30EA, 0x30DD, 0x30B8, 0x30C8, 0x30EA],
    Rule (ascii ''branch'') (Some (ascii ''es'')) [0x30D6, 0x30E9, 0x30F3, 0x30C1],
    Rule (ascii ''commit'') (Some (ascii ''s'')) [0x30B3, 0x30DF, 0x30C3, 0x30C8],
    Rule (ascii ''pull request'') (Some (ascii ''s'')) [0x30D7, 0x30EB, 0x30EA, 0x30AF, 0x30A8, 0x30B9, 0x30C8],
    Rule (ascii ''issue'') (Some (ascii ''s'')) (ascii ''Issue''),
    Rule (ascii ''token'') (Some (ascii ''s'')) [0x30C8, 0x30FC, 0x30AF, 0x30F3],
    Rule (ascii ''parameter'') (Some (ascii ''s'')) [0x30D1, 0x30E9, 0x30E1, 0x30FC, 0x30BF],
    Rule (ascii ''property'') (Some (ascii ''ies'')) [0x30D7, 0x30ED, 0x30D1, 0x30C6, 0x30A3],
    Rule (ascii ''schema'') None [0x30B9, 0x30AD, 0x30FC, 0x30DE],
    Rule (ascii ''model'') (Some (ascii ''s'')) [0x30E2, 0x30C7, 0x30EB],
    Rule (ascii ''tool'') (Some (ascii ''s'')) [0x30C4, 0x30FC, 0x30EB],
    Rule (ascii ''query'') None [0x30AF, 0x30A8, 0x30EA],
    Rule (ascii ''log'') (Some (ascii ''s'')) [0x30ED, 0x30B0],
    Rule (ascii ''error'') (Some (ascii ''s'')) [0x30A8, 0x30E9, 0x30FC],
    Rule (ascii ''warning'') (Some (ascii ''s'')) [0x8B66, 0x544A],
    Rule (ascii ''output'') None [0x51FA, 0x529B],
    Rule (ascii ''input'') None [0x5165, 0x529B],
    Rule (ascii ''result'') (Some (ascii ''s'')) [0x7D50, 0x679C],
    Rule (ascii ''example'') (Some (ascii ''s'')) [0x4F8B],
    Rule (ascii ''default'') None [0x65E2, 0x5B9A, 0x5024]]"

text \<open>
  \<^verbatim>\<open>
  out = s
  for pat, rep in reps:
      out = re.sub(pat, rep, out, flags=re.IGNORECASE)
  for en, ja in glossary.items():
      out = out.replace(en, ja)
  out = out.replace(" e.g.", " <U+4F8B>:").replace(" i.e.", " <U+3059 U+306A U+308F U+3061> ")
  return out
  \<close>
\<close>

definition rule_based_translate :: "(codepoint \<Rightarrow> bool) \<Rightarrow> str \<Rightarrow> glossary \<Rightarrow> str" where
  "rule_based_translate ua s glossary =
     (let out = fold (\<lambda>r out. re_sub ua r None out) reps s;
          out = fold (\<lambda>(en, ja) out. replace out en ja) glossary out
      in replace (replace out (ascii '' e.g.'') [0x20, 0x4F8B, 0x3A])
           (ascii '' i.e.'') [0x20, 0x3059, 0x306A, 0x308F, 0x3061, 0x20])"

section \<open>translate_text_block\<close>

text \<open>
  \<^verbatim>\<open>
  def translate_text_block(text: str, glossary: dict, bilingual=False):
      if not text.strip():
          return text
      try:
          if USE_OPENAI:
              ja = openai_translate(text)
          elif USE_DEEPL:
              ja = deepl_translate(text)
          else:
              ja = rule_based_translate(text, glossary)
      except Exception:
          ja = rule_based_translate(text, glossary)
      return ja if not bilingual else f"{ja}\n\n[English]\n{text}"
  \<close>
  The two network backends are outside the program. Each is a function that answers a
  text with a translation or with a failure (a Python \<^verbatim>\<open>Exception\<close>, which is what
  \<^verbatim>\<open>except Exception\<close> catches); the answer may depend on every call made before, so
  the log of the calls is threaded through and a backend reads it. The log is also what
  shows which backend calls a run has made.
\<close>

datatype backend = OpenAI | DeepL

datatype failure = Failure str

type_synonym log = "(backend \<times> str) list"

record env =
  USE_OPENAI :: bool
  USE_DEEPL :: bool
  openai_translate :: "log \<Rightarrow> str \<Rightarrow> failure + str"
  deepl_translate :: "log \<Rightarrow> str \<Rightarrow> failure + str"
  unicode_alnum :: "codepoint \<Rightarrow> bool"

definition translate_text_block :: "env \<Rightarrow> str \<Rightarrow> glossary \<Rightarrow> bool \<Rightarrow> log \<Rightarrow> str \<times> log" where
  "translate_text_block env txt glossary bilingual log =
     (if strip txt = [] then (txt, log)
      else
        let (ja, log') =
          (if USE_OPENAI env then
             (case openai_translate env log txt of
                Inr ja \<Rightarrow> (ja, log @ [(OpenAI, txt)])
              | Inl e \<Rightarrow> (rule_based_translate (unicode_alnum env) txt glossary, log @ [(OpenAI, txt)]))
           else if USE_DEEPL env then
             (case deepl_translate env log txt of
                Inr ja \<Rightarrow> (ja, log @ [(DeepL, txt)])
              | Inl e \<Rightarrow> (rule_based_translate (unicode_alnum env) txt glossary, log @ [(DeepL, txt)]))
           else (rule_based_translate (unicode_alnum env) txt glossary, log))
        in (if \<not> bilingual then ja else ja @ [0x0A, 0x0A] @ ascii ''[English]'' @ [0x0A] @ txt, log'))"

section \<open>translate_markdown_like\<close>

text \<open>
  \<^verbatim>\<open>
  def translate_markdown_like(text: str, glossary: dict, bilingual=False):
      out = []
      for kind, part in split_md_blocks(text):
          if kind == "code":
              out.append(part)
          else:
              out.append(translate_text_block(part, glossary, bilingual=bilingual))
      return "".join(out)
  \<close>
  \<open>translate_parts\<close> is the loop: the list \<open>out\<close> it builds, and the log.
\<close>

fun translate_parts :: "env \<Rightarrow> (kind \<times> str) list \<Rightarrow> glossary \<Rightarrow> bool \<Rightarrow> log \<Rightarrow> str list \<times> log" where
  "translate_parts env [] glossary bilingual log = ([], log)"
| "translate_parts env ((kind, part) # spans) glossary bilingual log =
     (if kind = Code then
        let (out, log') = translate_parts env spans glossary bilingual log
        in (part # out, log')
      else
        let (t, log1) = translate_text_block env part glossary bilingual log;
            (out, log2) = translate_parts env spans glossary bilingual log1
        in (t # out, log2))"

definition translate_markdown_like :: "env \<Rightarrow> str \<Rightarrow> glossary \<Rightarrow> bool \<Rightarrow> log \<Rightarrow> str \<times> log" where
  "translate_markdown_like env txt glossary bilingual log =
     (let (out, log') = translate_parts env (split_md_blocks txt) glossary bilingual log
      in (concat out, log'))"

section \<open>translate_json_descriptions\<close>

text \<open>
  \<^verbatim>\<open>
  def translate_json_descriptions(obj, glossary: dict, bilingual=False):
      if isinstance(obj, dict):
          new = {}
          for k, v in obj.items():
              if k == "description" and isinstance(v, str):
                  new[k] = translate_text_block(v, glossary, bilingual=bilingual)
              else:
                  new[k] = translate_json_descriptions(v, glossary, bilingual=bilingual)
          return new
      elif isinstance(obj, list):
          return [translate_json_descriptions(x, glossary, bilingual=bilingual) for x in obj]
      else:
          return obj
  \<close>
  The values \<^verbatim>\<open>json.loads\<close> builds: a \<^verbatim>\<open>dict\<close> with string keys, a \<^verbatim>\<open>list\<close>, a
  \<^verbatim>\<open>str\<close>, an \<^verbatim>\<open>int\<close>, a \<^verbatim>\<open>float\<close> (its 64 bits), a \<^verbatim>\<open>bool\<close> or \<^verbatim>\<open>None\<close>.
\<close>

datatype json =
    JDict "(str \<times> json) list"
  | JList "json list"
  | JStr str
  | JInt int
  | JFloat "64 word"
  | JBool bool
  | JNone

lemma size_json_value: "(k, v) \<in> set kvs \<Longrightarrow> size v < Suc (size_list (size_prod (\<lambda>_. 0) size) kvs)"
  by (induction kvs) auto

lemma size_json_elem: "x \<in> set xs \<Longrightarrow> size x < Suc (size_list size xs)"
  by (induction xs) auto

function translate_json_descriptions :: "env \<Rightarrow> json \<Rightarrow> glossary \<Rightarrow> bool \<Rightarrow> log \<Rightarrow> json \<times> log" where
  "translate_json_descriptions env (JDict obj) glossary bilingual log =
     (let (new, log') =
        fold (\<lambda>(k, v) (new, log).
                case (k = ascii ''description'', v) of
                  (True, JStr s) \<Rightarrow>
                    let (t, log') = translate_text_block env s glossary bilingual log
                    in (dict_set new k (JStr t), log')
                | _ \<Rightarrow>
                    let (v', log') = translate_json_descriptions env v glossary bilingual log
                    in (dict_set new k v', log'))
          obj ([], log)
      in (JDict new, log'))"
| "translate_json_descriptions env (JList obj) glossary bilingual log =
     (let (new, log') =
        fold (\<lambda>x (new, log).
                let (x', log') = translate_json_descriptions env x glossary bilingual log
                in (new @ [x'], log'))
          obj ([], log)
      in (JList new, log'))"
| "translate_json_descriptions env (JStr s) glossary bilingual log = (JStr s, log)"
| "translate_json_descriptions env (JInt i) glossary bilingual log = (JInt i, log)"
| "translate_json_descriptions env (JFloat f) glossary bilingual log = (JFloat f, log)"
| "translate_json_descriptions env (JBool b) glossary bilingual log = (JBool b, log)"
| "translate_json_descriptions env JNone glossary bilingual log = (JNone, log)"
  by pat_completeness auto
termination
  by (relation "measure (\<lambda>(env, obj, glossary, bilingual, log). size obj)")
     (auto dest: size_json_value size_json_elem)

text \<open>
  The value the loop of the \<^verbatim>\<open>dict\<close> branch stores under the key \<open>k\<close>, and the log after
  it: the two branches of its \<^verbatim>\<open>if\<close>, without the store.
\<close>

definition translate_value :: "env \<Rightarrow> glossary \<Rightarrow> bool \<Rightarrow> str \<Rightarrow> json \<Rightarrow> log \<Rightarrow> json \<times> log" where
  "translate_value env glossary bilingual k v log =
     (case (k = ascii ''description'', v) of
        (True, JStr s) \<Rightarrow>
          (JStr (fst (translate_text_block env s glossary bilingual log)),
           snd (translate_text_block env s glossary bilingual log))
      | _ \<Rightarrow> translate_json_descriptions env v glossary bilingual log)"

section \<open>Notions of the specification and concrete environments\<close>

text \<open>
  A document written out as texts and fenced blocks: \<open>document [(t1, b1), \<dots>, (tn, bn)] rest\<close>
  is \<^verbatim>\<open>t1 ```b1``` \<dots> tn ```bn``` rest\<close>. \<open>no_fence_before t\<close> says that no fence begins
  inside \<open>t\<close>, the first two backticks of a fence that follows \<open>t\<close> counted in: the fence
  written after \<open>t\<close> is the first fence there is. The text in front of a block and the body
  of a block are such strings. \<open>translated_document\<close> is the document with every text
  replaced by what \<open>translate_text_block\<close> returns for it, in order, every block as it is
  in the input, and the rest translated as a document of its own.
\<close>

fun document :: "(str \<times> str) list \<Rightarrow> str \<Rightarrow> str" where
  "document [] rest = rest"
| "document ((t, b) # blocks) rest = t @ fence @ b @ fence @ document blocks rest"

definition no_fence_before :: "str \<Rightarrow> bool" where
  "no_fence_before t = (\<not> sublist fence (t @ ascii ''``''))"

fun translated_document :: "env \<Rightarrow> glossary \<Rightarrow> bool \<Rightarrow> (str \<times> str) list \<Rightarrow> str \<Rightarrow> log \<Rightarrow> str" where
  "translated_document env glossary bilingual [] rest log =
     fst (translate_markdown_like env rest glossary bilingual log)"
| "translated_document env glossary bilingual ((t, b) # blocks) rest log =
     fst (translate_text_block env t glossary bilingual log) @ fence @ b @ fence @
     translated_document env glossary bilingual blocks rest
       (snd (translate_text_block env t glossary bilingual log))"

text \<open>
  The number of fences of a document, read from the left without overlap. A document
  whose count is odd has a last fence that nothing closes: an unbalanced fence.
\<close>

function fence_count :: "str \<Rightarrow> nat" where
  "fence_count s =
     (case find_fence s of
        None \<Rightarrow> 0
      | Some (a, rest) \<Rightarrow> Suc (fence_count rest))"
  by pat_completeness auto
termination
  by (relation "measure length") (auto dest!: find_fence_Some simp: length_fence)

text \<open>
  A value built by \<^verbatim>\<open>json.loads\<close> has no \<^verbatim>\<open>dict\<close> with a repeated key.
\<close>

function wf_json :: "json \<Rightarrow> bool" where
  "wf_json (JDict obj) = (distinct (map fst obj) \<and> (\<forall>kv \<in> set obj. wf_json (snd kv)))"
| "wf_json (JList xs) = (\<forall>x \<in> set xs. wf_json x)"
| "wf_json (JStr s) = True"
| "wf_json (JInt i) = True"
| "wf_json (JFloat f) = True"
| "wf_json (JBool b) = True"
| "wf_json JNone = True"
  by pat_completeness auto
termination
  by (relation "measure size") (auto intro: size_json_elem size_json_value)

text \<open>
  The specification of the walk, in its own words: the output has the same keys in the
  same order in every mapping and the same length in every sequence; a string that is the
  direct value of the key \<^verbatim>\<open>description\<close> is replaced by a translation of it (\<open>T s t\<close>:
  \<open>t\<close> is a translation of \<open>s\<close>); every other scalar is unchanged.
\<close>

function walk_spec :: "(str \<Rightarrow> str \<Rightarrow> bool) \<Rightarrow> json \<Rightarrow> json \<Rightarrow> bool" where
  "walk_spec T (JDict obj) j =
     (case j of
        JDict new \<Rightarrow>
          list_all2 (\<lambda>kv kv'.
              fst kv' = fst kv \<and>
              (case (fst kv = ascii ''description'', snd kv) of
                 (True, JStr s) \<Rightarrow> (case snd kv' of JStr t \<Rightarrow> T s t | _ \<Rightarrow> False)
               | _ \<Rightarrow> walk_spec T (snd kv) (snd kv')))
            obj new
      | _ \<Rightarrow> False)"
| "walk_spec T (JList xs) j =
     (case j of JList ys \<Rightarrow> list_all2 (walk_spec T) xs ys | _ \<Rightarrow> False)"
| "walk_spec T (JStr s) j = (j = JStr s)"
| "walk_spec T (JInt i) j = (j = JInt i)"
| "walk_spec T (JFloat f) j = (j = JFloat f)"
| "walk_spec T (JBool b) j = (j = JBool b)"
| "walk_spec T JNone j = (j = JNone)"
  by pat_completeness auto
termination
  by (relation "measure (\<lambda>(T, j, j'). size j)") (auto intro: size_json_elem size_json_value)

text \<open>
  A part of \<^verbatim>\<open>str.isalnum\<close> beyond ASCII: the kana and the ideographs the replacement
  texts of the catalogue are written in (U+3041..U+3096, U+30A1..U+30FA, U+30FC,
  U+4E00..U+9FA5).
\<close>

definition kana_kanji_alnum :: "codepoint \<Rightarrow> bool" where
  "kana_kanji_alnum c =
     ((0x3041 \<le> c \<and> c \<le> 0x3096) \<or> (0x30A1 \<le> c \<and> c \<le> 0x30FA) \<or> c = 0x30FC \<or>
      (0x4E00 \<le> c \<and> c \<le> 0x9FA5))"

text \<open>
  Three environments: no credentials at all; the first backend selected and failing on
  every call; the second backend selected and answering every text with the text itself.
\<close>

definition offline_env :: env where
  "offline_env =
     \<lparr>USE_OPENAI = False, USE_DEEPL = False,
      openai_translate = (\<lambda>log txt. Inl (Failure (ascii ''no key''))),
      deepl_translate = (\<lambda>log txt. Inl (Failure (ascii ''no key''))),
      unicode_alnum = kana_kanji_alnum\<rparr>"

definition failing_env :: env where
  "failing_env =
     \<lparr>USE_OPENAI = True, USE_DEEPL = True,
      openai_translate = (\<lambda>log txt. Inl (Failure (ascii ''quota''))),
      deepl_translate = (\<lambda>log txt. Inr (ascii ''deepl'')),
      unicode_alnum = kana_kanji_alnum\<rparr>"

definition echo_env :: env where
  "echo_env =
     \<lparr>USE_OPENAI = False, USE_DEEPL = True,
      openai_translate = (\<lambda>log txt. Inl (Failure (ascii ''no key''))),
      deepl_translate = (\<lambda>log txt. Inr txt),
      unicode_alnum = kana_kanji_alnum\<rparr>"

section \<open>The segmenter\<close>

declare re_split.simps [simp del] fence_count.simps [simp del]

lemma enumerate_parts_shift: "enumerate_parts (Suc (Suc i)) parts = enumerate_parts i parts"
  by (induction parts arbitrary: i) (auto simp: mod_Suc)

lemma split_md_blocks_unfold:
  "split_md_blocks s =
     (case search s of
        None \<Rightarrow> [(Text, s)]
      | Some (p, m, rest) \<Rightarrow> (Text, p) # (Code, m) # split_md_blocks rest)"
  unfolding split_md_blocks_def
  by (subst re_split.simps) (auto split: option.splits simp: enumerate_parts_shift numeral_2_eq_2)

lemma split_md_blocks_induct [case_names Last Block]:
  assumes "\<And>s. search s = None \<Longrightarrow> P s"
    and "\<And>s p m rest. search s = Some (p, m, rest) \<Longrightarrow> P rest \<Longrightarrow> P s"
  shows "P s"
  using assms by (induction s rule: re_split.induct) (metis option.exhaust prod_cases3)

lemma split_md_blocks_concat: "concat (map snd (split_md_blocks s)) = s"
proof (induction s rule: split_md_blocks_induct)
  case (Last s)
  then show ?case by (subst split_md_blocks_unfold) simp
next
  case (Block s p m rest)
  then show ?case by (subst split_md_blocks_unfold) (auto dest: search_Some)
qed

lemma find_fence_suffix_None: "find_fence (a @ b) = None \<Longrightarrow> find_fence b = None"
  by (induction a) (auto split: if_splits)

lemma find_fence_drop_None: "find_fence s = None \<Longrightarrow> find_fence (drop n s) = None"
  using find_fence_suffix_None [of "take n s" "drop n s"] by simp

lemma search_find_fence:
  "search s =
     (case find_fence s of
        None \<Rightarrow> None
      | Some (p, rest) \<Rightarrow>
          (case find_fence rest of
             None \<Rightarrow> None
           | Some (body, rest') \<Rightarrow> Some (p, fence @ body @ fence, rest')))"
proof (induction s)
  case Nil
  then show ?case by simp
next
  case (Cons c cs)
  show ?case
  proof (cases "prefix fence (c # cs)")
    case True
    show ?thesis
    proof (cases "find_fence (drop 3 (c # cs))")
      case None
      have "search cs = None"
      proof (cases "find_fence cs")
        case None
        then show ?thesis using Cons.IH by simp
      next
        case (Some pr)
        obtain p rest where pr: "pr = (p, rest)" by (cases pr)
        have cs: "cs = p @ fence @ rest" using Some pr by (auto dest: find_fence_Some)
        have "drop 2 cs = drop 2 (p @ fence) @ rest"
          unfolding cs by (simp add: length_fence)
        moreover have "find_fence (drop 2 cs) = None" using None by simp
        ultimately have "find_fence rest = None"
          using find_fence_suffix_None by metis
        then show ?thesis using Cons.IH Some pr by simp
      qed
      with True None show ?thesis by (simp add: match_here_def)
    next
      case (Some br)
      with True show ?thesis by (auto simp: match_here_def split: prod.splits)
    qed
  next
    case False
    then show ?thesis using Cons.IH
      by (auto simp: match_here_def split: option.splits prod.splits)
  qed
qed

text \<open>
  C10. For every input string, \<open>split_md_blocks\<close> yields an odd number of spans, \<open>2 * n + 1\<close>,
  whose kinds are \<open>n\<close> times text, code and then a last text: the spans at even positions
  are text spans, those at odd positions are code spans, and the first and the last span
  are text spans (possibly empty).
\<close>

theorem split_md_blocks_alternates:
  "\<exists>n. map fst (split_md_blocks txt) = concat (replicate n [Text, Code]) @ [Text] \<and>
       length (split_md_blocks txt) = 2 * n + 1"
proof (induction "txt" rule: split_md_blocks_induct)
  case (Last s)
  have "map fst (split_md_blocks s) = concat (replicate 0 [Text, Code]) @ [Text] \<and>
        length (split_md_blocks s) = 2 * 0 + 1"
    using Last by (subst (1 2) split_md_blocks_unfold) simp
  then show ?case by blast
next
  case (Block s p m rest)
  then obtain n where n: "map fst (split_md_blocks rest) = concat (replicate n [Text, Code]) @ [Text]"
    "length (split_md_blocks rest) = 2 * n + 1"
    by blast
  have "map fst (split_md_blocks s) = concat (replicate (Suc n) [Text, Code]) @ [Text] \<and>
        length (split_md_blocks s) = 2 * Suc n + 1"
    using Block(1) n by (subst (1 2) split_md_blocks_unfold) simp
  then show ?case by blast
qed

lemma fence_count_unfold:
  "fence_count s =
     (case search s of
        None \<Rightarrow> (case find_fence s of None \<Rightarrow> 0 | Some _ \<Rightarrow> 1)
      | Some (p, m, rest) \<Rightarrow> Suc (Suc (fence_count rest)))"
  apply (subst fence_count.simps)
  apply (simp add: search_find_fence split: option.splits prod.splits)
  apply (intro allI impI conjI)
   apply (subst fence_count.simps, simp)
  apply (subst fence_count.simps, simp)
  done

text \<open>
  C2, as the code has it. A document with an odd number of fences has an unbalanced last
  fence. \<open>split_md_blocks\<close> returns for it as for every document, and its last span is a
  text span: the text \<open>t\<close> that follows the last closed block, the unbalanced fence, and all
  that comes after it (\<open>r\<close>, which has no fence). The unbalanced fence opens no code span.
\<close>

theorem unclosed_fence_stays_text:
  "odd (fence_count txt) \<Longrightarrow>
     \<exists>spans t r. split_md_blocks txt = spans @ [(Text, t @ fence @ r)] \<and>
       find_fence (t @ fence @ r) = Some (t, r) \<and> find_fence r = None"
proof (induction "txt" rule: split_md_blocks_induct)
  case (Last s)
  from Last obtain t r where tr: "find_fence s = Some (t, r)"
    by (subst (asm) fence_count_unfold) (auto split: option.splits)
  then have s: "s = t @ fence @ r" by (rule find_fence_Some)
  from Last(1) tr have "find_fence r = None"
    by (simp add: search_find_fence split: option.splits prod.splits)
  moreover have "split_md_blocks s = [] @ [(Text, t @ fence @ r)]"
    using Last(1) s by (subst split_md_blocks_unfold) simp
  ultimately show ?case using tr s by blast
next
  case (Block s p m rest)
  from Block(1,3) have "odd (fence_count rest)"
    by (subst (asm) fence_count_unfold) simp
  with Block(2) obtain spans t r where
    "split_md_blocks rest = spans @ [(Text, t @ fence @ r)]"
    "find_fence (t @ fence @ r) = Some (t, r)" "find_fence r = None" by blast
  moreover have "split_md_blocks s = (Text, p) # (Code, m) # split_md_blocks rest"
    using Block(1) by (subst split_md_blocks_unfold) simp
  ultimately have "split_md_blocks s = ((Text, p) # (Code, m) # spans) @ [(Text, t @ fence @ r)]
     \<and> find_fence (t @ fence @ r) = Some (t, r) \<and> find_fence r = None" by simp
  then show ?case by blast
qed

text \<open>
  C2 at the document \<^verbatim>\<open>intro```code\<close>: the claim asks for a trailing code span
  \<^verbatim>\<open>```code\<close>; the only span is a text span holding the whole document.
\<close>

theorem unclosed_fence_counterexample:
  "split_md_blocks (ascii ''intro```code'') = [(Text, ascii ''intro```code'')] \<and>
   last (split_md_blocks (ascii ''intro```code'')) \<noteq> (Code, ascii ''```code'')"
  by (simp add: split_md_blocks_def re_split.simps match_here_def fence_def ascii_def)

text \<open>
  The amended C2 at \<^verbatim>\<open>a```b```c```d\<close>, which has three fences.
\<close>

theorem unclosed_fence_stays_text_witness:
  "odd (fence_count (ascii ''a```b```c```d'')) \<and>
   (\<exists>spans t r. split_md_blocks (ascii ''a```b```c```d'') = spans @ [(Text, t @ fence @ r)] \<and>
      find_fence (t @ fence @ r) = Some (t, r) \<and> find_fence r = None)"
proof -
  have h: "odd (fence_count (ascii ''a```b```c```d''))"
    by (simp add: fence_count.simps fence_def ascii_def)
  show ?thesis using h unclosed_fence_stays_text [OF h] by blast
qed

section \<open>The dispatcher\<close>

lemma strip_empty_iff: "strip s = [] \<longleftrightarrow> (\<forall>c \<in> set s. isspace c)"
proof -
  have "strip s = [] \<longleftrightarrow> (\<forall>c \<in> set (dropWhile isspace s). isspace c)"
    by (simp add: strip_def dropWhile_eq_Nil_conv)
  also have "\<dots> \<longleftrightarrow> dropWhile isspace s = []"
  proof
    assume a: "\<forall>c \<in> set (dropWhile isspace s). isspace c"
    show "dropWhile isspace s = []"
    proof (rule ccontr)
      assume "dropWhile isspace s \<noteq> []"
      then have "\<not> isspace (hd (dropWhile isspace s))" "hd (dropWhile isspace s) \<in> set (dropWhile isspace s)"
        by (simp_all add: hd_dropWhile)
      with a show False by blast
    qed
  next
    assume e: "dropWhile isspace s = []"
    show "\<forall>c \<in> set (dropWhile isspace s). isspace c" unfolding e by simp
  qed
  also have "\<dots> \<longleftrightarrow> (\<forall>c \<in> set s. isspace c)"
    by (simp add: dropWhile_eq_Nil_conv)
  finally show ?thesis .
qed

text \<open>
  C8. For every text that is empty or consists of whitespace only, \<open>translate_text_block\<close>
  returns the text as it is, in bilingual mode too, and the log of backend calls is the
  one it was given: no backend is invoked.
\<close>

theorem blank_text_unchanged:
  "\<forall>c \<in> set txt. isspace c \<Longrightarrow>
     translate_text_block env txt glossary bilingual log = (txt, log)"
  by (simp add: translate_text_block_def strip_empty_iff)

text \<open>
  C8 at a text of four whitespace characters (space, line feed, tab, ideographic space),
  in bilingual mode, in an environment whose first backend is selected.
\<close>

theorem blank_text_unchanged_witness:
  "strip (ascii '' '' @ [0x0A, 0x09, 0x3000]) = [] \<and>
   translate_text_block failing_env (ascii '' '' @ [0x0A, 0x09, 0x3000]) [] True [] =
     (ascii '' '' @ [0x0A, 0x09, 0x3000], [])"
proof -
  have h: "\<forall>c \<in> set (ascii '' '' @ [0x0A, 0x09, 0x3000]). isspace c"
    by (simp add: ascii_def isspace_def)
  show ?thesis using h blank_text_unchanged [OF h] by (simp add: strip_empty_iff)
qed

text \<open>
  C9. For every text that is not blank, the value returned in bilingual mode is the value
  returned without it, followed by two line feeds, the label \<^verbatim>\<open>[English]\<close>, a line feed and
  the text itself; the value returned without bilingual mode is the translated text as it
  is: the answer of the selected backend, or the output of \<open>rule_based_translate\<close> when no
  backend is selected or the selected one fails.
\<close>

theorem bilingual_composition:
  "strip txt \<noteq> [] \<Longrightarrow>
     fst (translate_text_block env txt glossary True log) =
       fst (translate_text_block env txt glossary False log) @
         [0x0A, 0x0A] @ ascii ''[English]'' @ [0x0A] @ txt \<and>
     fst (translate_text_block env txt glossary False log) =
       (if USE_OPENAI env then
          (case openai_translate env log txt of
             Inr ja \<Rightarrow> ja
           | Inl e \<Rightarrow> rule_based_translate (unicode_alnum env) txt glossary)
        else if USE_DEEPL env then
          (case deepl_translate env log txt of
             Inr ja \<Rightarrow> ja
           | Inl e \<Rightarrow> rule_based_translate (unicode_alnum env) txt glossary)
        else rule_based_translate (unicode_alnum env) txt glossary)"
  by (simp add: translate_text_block_def split: sum.splits)

text \<open>
  C6. For every text that is not blank, when the selected backend (the first if its
  credentials are present, else the second) fails on the text, \<open>translate_text_block\<close> returns
  the output of \<open>rule_based_translate\<close> on the same text, composed with the original in
  bilingual mode. It returns a value, so the failure does not reach the caller, and the log
  gains that one backend call and no other.
\<close>

theorem backend_failure_falls_back:
  assumes "strip txt \<noteq> []"
    and "USE_OPENAI env \<and> openai_translate env log txt = Inl e \<or>
         \<not> USE_OPENAI env \<and> USE_DEEPL env \<and> deepl_translate env log txt = Inl e"
  shows "translate_text_block env txt glossary bilingual log =
     (if bilingual
      then rule_based_translate (unicode_alnum env) txt glossary @
             [0x0A, 0x0A] @ ascii ''[English]'' @ [0x0A] @ txt
      else rule_based_translate (unicode_alnum env) txt glossary,
      log @ [(if USE_OPENAI env then OpenAI else DeepL, txt)])"
  using assms by (auto simp: translate_text_block_def)

section \<open>The rule catalogue at concrete texts\<close>

lemmas regex_eval = match_rule_def boundary_at_def boundary_def word_at_def is_word_def head_def
  matches_ci_def to_lower_def ascii_upper_def ascii_lower_def ascii_digit_def

lemma reps_Search:
  "fold (\<lambda>r out. re_sub ua r None out) reps (ascii ''Search'') =
     [0x691C, 0x7D22, 0x3057, 0x307E, 0x3059]"
  by (simp add: reps_def ascii_def regex_eval)


lemma rule_based_translate_Search:
  "rule_based_translate ua (ascii ''Search'') [] = [0x691C, 0x7D22, 0x3057, 0x307E, 0x3059]"
  by (simp add: rule_based_translate_def reps_Search replace_def) (simp add: ascii_def)

lemma strip_Search: "strip (ascii ''Search'') \<noteq> []"
  by (simp add: strip_empty_iff ascii_def isspace_def)

text \<open>
  C6 at the text \<^verbatim>\<open>Search\<close>, in bilingual mode, where the first backend fails: the result is
  the rule-based translation U+691C U+7D22 U+3057 U+307E U+3059 with the original below it, and
  the second backend, whose credentials are present too, is not called.
\<close>

theorem backend_failure_falls_back_witness:
  "strip (ascii ''Search'') \<noteq> [] \<and> USE_OPENAI failing_env \<and>
   openai_translate failing_env [] (ascii ''Search'') = Inl (Failure (ascii ''quota'')) \<and>
   translate_text_block failing_env (ascii ''Search'') [] True [] =
     ([0x691C, 0x7D22, 0x3057, 0x307E, 0x3059] @ [0x0A, 0x0A] @ ascii ''[English]'' @ [0x0A] @
        ascii ''Search'',
      [(OpenAI, ascii ''Search'')])"
proof -
  have h: "USE_OPENAI failing_env \<and>
        openai_translate failing_env [] (ascii ''Search'') = Inl (Failure (ascii ''quota'')) \<or>
      \<not> USE_OPENAI failing_env \<and> USE_DEEPL failing_env \<and>
        deepl_translate failing_env [] (ascii ''Search'') = Inl (Failure (ascii ''quota''))"
    by (simp add: failing_env_def)
  show ?thesis
    using backend_failure_falls_back [OF strip_Search h, of "[]" True]
    by (simp add: strip_Search rule_based_translate_Search) (simp add: failing_env_def)
qed

text \<open>
  C9 at the text \<^verbatim>\<open>Search\<close> with no backend selected.
\<close>

theorem bilingual_composition_witness:
  "strip (ascii ''Search'') \<noteq> [] \<and>
   fst (translate_text_block offline_env (ascii ''Search'') [] True []) =
     [0x691C, 0x7D22, 0x3057, 0x307E, 0x3059] @ [0x0A, 0x0A] @ ascii ''[English]'' @ [0x0A] @
       ascii ''Search'' \<and>
   fst (translate_text_block offline_env (ascii ''Search'') [] False []) =
     [0x691C, 0x7D22, 0x3057, 0x307E, 0x3059]"
  using bilingual_composition [OF strip_Search, of offline_env "[]" "[]"]
  by (simp add: strip_Search rule_based_translate_Search offline_env_def)



section \<open>The document translator\<close>

lemma code_spans_fenced:
  "(Code, part) \<in> set (split_md_blocks s) \<Longrightarrow> \<exists>body. part = fence @ body @ fence"
proof (induction s rule: split_md_blocks_induct)
  case (Last s)
  then show ?case by (subst (asm) split_md_blocks_unfold) simp
next
  case (Block s p m rest)
  from Block(3) have "(Code, part) = (Code, m) \<or> (Code, part) \<in> set (split_md_blocks rest)"
    using Block(1) by (subst (asm) split_md_blocks_unfold) simp
  then show ?case using Block(1,2) by (auto dest: search_Some)
qed

lemma translate_parts_Cons:
  "translate_parts env ((kind, part) # spans) glossary bilingual log =
     (if kind = Code
      then (part # fst (translate_parts env spans glossary bilingual log),
            snd (translate_parts env spans glossary bilingual log))
      else (fst (translate_text_block env part glossary bilingual log) #
              fst (translate_parts env spans glossary bilingual
                     (snd (translate_text_block env part glossary bilingual log))),
            snd (translate_parts env spans glossary bilingual
                   (snd (translate_text_block env part glossary bilingual log)))))"
  by (simp add: split_beta)

lemma translate_markdown_like_concat:
  "fst (translate_markdown_like env txt glossary bilingual log) =
     concat (fst (translate_parts env (split_md_blocks txt) glossary bilingual log))"
  by (simp add: translate_markdown_like_def split_beta)

declare translate_parts.simps(2) [simp del]

lemma translate_parts_frame:
  "list_all2
     (\<lambda>span t. case fst span of
                  Code \<Rightarrow> t = snd span
                | Text \<Rightarrow> (\<exists>l. t = fst (translate_text_block env (snd span) glossary bilingual l)))
     spans (fst (translate_parts env spans glossary bilingual log))"
proof (induction spans arbitrary: log)
  case Nil
  then show ?case by simp
next
  case (Cons span spans)
  obtain kind part where span: "span = (kind, part)" by (cases span)
  show ?case
  proof (cases kind)
    case Code
    with span Cons.IH [of log] show ?thesis by (simp add: translate_parts_Cons)
  next
    case Text
    with span Cons.IH [of "snd (translate_text_block env part glossary bilingual log)"]
    show ?thesis by (auto simp: translate_parts_Cons)
  qed
qed

lemma prefix_fence_append:
  "3 \<le> length s \<Longrightarrow> prefix fence (s @ x) \<longleftrightarrow> prefix fence s"
  by (metis length_fence prefix_append prefix_length_prefix prefix_order.dual_order.refl
      prefix_order.trans append_prefixD prefixI)

lemma find_fence_at:
  "no_fence_before t \<Longrightarrow> find_fence (t @ fence @ x) = Some (t, x)"
proof (induction t)
  case Nil
  have "fence @ x = 96 # 96 # 96 # x" by (simp add: fence_def ascii_def)
  then show ?case by (simp add: fence_def ascii_def)
next
  case (Cons c t)
  from Cons.prems have np: "\<not> prefix fence ((c # t) @ ascii ''``'')"
    and nb: "no_fence_before t"
    by (auto simp: no_fence_before_def sublist_Cons_right)
  have "(c # t) @ fence @ x = ((c # t) @ ascii ''``'') @ (96 # x)"
    by (simp add: fence_def ascii_def)
  moreover have "3 \<le> length ((c # t) @ ascii ''``'')" by (simp add: ascii_def)
  ultimately have "\<not> prefix fence ((c # t) @ fence @ x)"
    using np prefix_fence_append by metis
  then have "\<not> prefix fence (c # t @ fence @ x)" by simp
  with Cons.IH [OF nb] show ?case by simp
qed

lemma find_fence_no_fence_before:
  "find_fence s = Some (p, r) \<Longrightarrow> no_fence_before p"
proof (induction s arbitrary: p)
  case Nil
  then show ?case by simp
next
  case (Cons c cs)
  show ?case
  proof (cases "prefix fence (c # cs)")
    case True
    with Cons.prems have "p = []" by simp
    moreover have "\<not> sublist fence (ascii ''``'')"
      using sublist_length_le [of fence "ascii ''``''"] by (auto simp: length_fence ascii_def)
    ultimately show ?thesis by (simp add: no_fence_before_def)
  next
    case False
    with Cons.prems obtain p' where p': "find_fence cs = Some (p', r)" "p = c # p'"
      by (auto split: prod.splits)
    then have cs: "cs = p' @ fence @ r" by (auto dest: find_fence_Some)
    have nb: "no_fence_before p'" using Cons.IH p' by blast
    have "c # cs = ((c # p') @ ascii ''``'') @ (96 # r)"
      unfolding cs by (simp add: fence_def ascii_def)
    moreover have "3 \<le> length ((c # p') @ ascii ''``'')" by (simp add: ascii_def)
    ultimately have "\<not> prefix fence ((c # p') @ ascii ''``'')"
      using False prefix_fence_append by metis
    with nb p' show ?thesis by (simp add: no_fence_before_def sublist_Cons_right)
  qed
qed

lemma search_block:
  "no_fence_before t \<Longrightarrow> no_fence_before b \<Longrightarrow>
     search (t @ fence @ b @ fence @ rest) = Some (t, fence @ b @ fence, rest)"
  by (simp add: search_find_fence find_fence_at)

lemma split_md_blocks_block:
  "no_fence_before t \<Longrightarrow> no_fence_before b \<Longrightarrow>
     split_md_blocks (t @ fence @ b @ fence @ rest) =
       (Text, t) # (Code, fence @ b @ fence) # split_md_blocks rest"
  by (subst split_md_blocks_unfold) (simp add: search_block)

lemma split_md_blocks_document:
  "\<forall>tb \<in> set blocks. no_fence_before (fst tb) \<and> no_fence_before (snd tb) \<Longrightarrow>
     split_md_blocks (document blocks rest) =
       concat (map (\<lambda>tb. [(Text, fst tb), (Code, fence @ snd tb @ fence)]) blocks) @
       split_md_blocks rest"
proof (induction blocks)
  case Nil
  then show ?case by simp
next
  case (Cons tb blocks)
  obtain t b where tb: "tb = (t, b)" by (cases tb)
  with Cons show ?case by (simp add: split_md_blocks_block)
qed

lemma translate_markdown_like_document:
  "\<forall>tb \<in> set blocks. no_fence_before (fst tb) \<and> no_fence_before (snd tb) \<Longrightarrow>
     fst (translate_markdown_like env (document blocks rest) glossary bilingual log) =
       translated_document env glossary bilingual blocks rest log"
proof (induction blocks arbitrary: log)
  case Nil
  then show ?case by simp
next
  case (Cons tb blocks)
  obtain t b where tb: "tb = (t, b)" by (cases tb)
  have nb: "no_fence_before t" "no_fence_before b" using Cons.prems tb by auto
  have rest: "\<forall>tb \<in> set blocks. no_fence_before (fst tb) \<and> no_fence_before (snd tb)"
    using Cons.prems by simp
  have "fst (translate_markdown_like env (document (tb # blocks) rest) glossary bilingual log) =
      fst (translate_text_block env t glossary bilingual log) @ fence @ b @ fence @
      fst (translate_markdown_like env (document blocks rest) glossary bilingual
             (snd (translate_text_block env t glossary bilingual log)))"
    using nb tb
    by (simp add: translate_markdown_like_concat split_md_blocks_block translate_parts_Cons)
  with Cons.IH [OF rest] tb show ?case by simp
qed

text \<open>
  Every document is of this form, with a rest that has no closed block.
\<close>

lemma document_decomposition:
  "\<exists>blocks rest. txt = document blocks rest \<and>
     (\<forall>tb \<in> set blocks. no_fence_before (fst tb) \<and> no_fence_before (snd tb)) \<and>
     split_md_blocks rest = [(Text, rest)]"
proof (induction "txt" rule: split_md_blocks_induct)
  case (Last s)
  have "s = document [] s \<and> split_md_blocks s = [(Text, s)]"
    using Last by (subst split_md_blocks_unfold) simp
  then show ?case by (intro exI [of _ "[]"] exI [of _ s]) simp
next
  case (Block s p m rest)
  from Block(1) obtain r1 body where
    f1: "find_fence s = Some (p, r1)" and f2: "find_fence r1 = Some (body, rest)"
    and m: "m = fence @ body @ fence"
    by (auto simp: search_find_fence split: option.splits prod.splits)
  have s: "s = p @ fence @ body @ fence @ rest"
    using f1 f2 by (auto dest!: find_fence_Some)
  have nb: "no_fence_before p" "no_fence_before body"
    using f1 f2 by (auto dest: find_fence_no_fence_before)
  from Block(2) obtain blocks tl where
    "rest = document blocks tl"
    "\<forall>tb \<in> set blocks. no_fence_before (fst tb) \<and> no_fence_before (snd tb)"
    "split_md_blocks tl = [(Text, tl)]" by blast
  with s nb show ?case
    by (intro exI [of _ "(p, body) # blocks"] exI [of _ tl]) simp
qed

text \<open>
  C3. Take any document \<^verbatim>\<open>t1 ```b1``` \<dots> tn ```bn``` rest\<close> in which each fence written is
  the first one after what precedes it. Then \<open>split_md_blocks\<close> yields the text span \<open>t1\<close>,
  the code span \<^verbatim>\<open>```b1```\<close>, and so on, followed by the spans of the rest; and the output
  of \<open>translate_markdown_like\<close> is the same document with each text replaced by the value
  \<open>translate_text_block\<close> returns for it and each block, fence markers included, as it is
  in the input. This holds for every environment, so for every behaviour of the backends.
  The output is the concatenation of one entry for each span, in order, the entry of a code
  span being its content: the number of spans and their kinds do not change, and only the
  entries of text spans do.
\<close>

theorem code_fence_inviolable:
  assumes "\<forall>tb \<in> set blocks. no_fence_before (fst tb) \<and> no_fence_before (snd tb)"
  shows "split_md_blocks (document blocks rest) =
           concat (map (\<lambda>tb. [(Text, fst tb), (Code, fence @ snd tb @ fence)]) blocks) @
           split_md_blocks rest \<and>
         fst (translate_markdown_like env (document blocks rest) glossary bilingual log) =
           translated_document env glossary bilingual blocks rest log \<and>
         (\<exists>out. fst (translate_markdown_like env (document blocks rest) glossary bilingual log) =
                  concat out \<and>
            list_all2
              (\<lambda>span t. case fst span of
                           Code \<Rightarrow> t = snd span
                         | Text \<Rightarrow> (\<exists>l. t = fst (translate_text_block env (snd span) glossary bilingual l)))
              (split_md_blocks (document blocks rest)) out)"
proof (intro conjI)
  show "split_md_blocks (document blocks rest) =
           concat (map (\<lambda>tb. [(Text, fst tb), (Code, fence @ snd tb @ fence)]) blocks) @
           split_md_blocks rest"
    using assms by (rule split_md_blocks_document)
  show "fst (translate_markdown_like env (document blocks rest) glossary bilingual log) =
           translated_document env glossary bilingual blocks rest log"
    using assms by (rule translate_markdown_like_document)
  show "\<exists>out. fst (translate_markdown_like env (document blocks rest) glossary bilingual log) =
                  concat out \<and>
            list_all2
              (\<lambda>span t. case fst span of
                           Code \<Rightarrow> t = snd span
                         | Text \<Rightarrow> (\<exists>l. t = fst (translate_text_block env (snd span) glossary bilingual l)))
              (split_md_blocks (document blocks rest)) out"
    using translate_markdown_like_concat translate_parts_frame by blast
qed

text \<open>
  C3 at \<^verbatim>\<open>Execute ```issue``` files ```code with Execute``` Search\<close> with no backend
  selected: the three words outside the fences are translated, and \<^verbatim>\<open>issue\<close> and
  \<^verbatim>\<open>Execute\<close> inside them, which the rule catalogue would rewrite, are as they were.
\<close>

theorem code_fence_inviolable_witness:
  "split_md_blocks (ascii ''Execute ```issue``` files ```code with Execute``` Search'') =
     [(Text, ascii ''Execute ''), (Code, ascii ''```issue```''), (Text, ascii '' files ''),
      (Code, ascii ''```code with Execute```''), (Text, ascii '' Search'')] \<and>
   fst (translate_markdown_like offline_env
          (ascii ''Execute ```issue``` files ```code with Execute``` Search'') [] False []) =
     [0x5B9F, 0x884C, 0x3057, 0x307E, 0x3059] @ ascii '' ```issue``` '' @
     [0x30D5, 0x30A1, 0x30A4, 0x30EB] @ ascii '' ```code with Execute``` '' @
     [0x691C, 0x7D22, 0x3057, 0x307E, 0x3059]"
proof -
  let ?blocks = "[(ascii ''Execute '', ascii ''issue''), (ascii '' files '', ascii ''code with Execute'')]"
  let ?rest = "ascii '' Search''"
  have h: "\<forall>tb \<in> set ?blocks. no_fence_before (fst tb) \<and> no_fence_before (snd tb)"
    by (simp add: no_fence_before_def fence_def ascii_def sublist_Cons_right)
  have doc: "ascii ''Execute ```issue``` files ```code with Execute``` Search'' = document ?blocks ?rest"
    by (simp add: fence_def ascii_def)
  note inst = code_fence_inviolable [OF h, of ?rest offline_env "[]" False "[]"]
  have "split_md_blocks (document ?blocks ?rest) =
     concat (map (\<lambda>tb. [(Text, fst tb), (Code, fence @ snd tb @ fence)]) ?blocks) @
     split_md_blocks ?rest"
    using inst by blast
  also have "\<dots> = [(Text, ascii ''Execute ''), (Code, ascii ''```issue```''), (Text, ascii '' files ''),
      (Code, ascii ''```code with Execute```''), (Text, ascii '' Search'')]"
    by (simp add: split_md_blocks_def re_split.simps match_here_def fence_def ascii_def)
  finally have spans: "split_md_blocks (document ?blocks ?rest) =
     [(Text, ascii ''Execute ''), (Code, ascii ''```issue```''), (Text, ascii '' files ''),
      (Code, ascii ''```code with Execute```''), (Text, ascii '' Search'')]" .
  have "fst (translate_markdown_like offline_env (document ?blocks ?rest) [] False []) =
     translated_document offline_env [] False ?blocks ?rest []"
    using inst by blast
  also have "\<dots> = [0x5B9F, 0x884C, 0x3057, 0x307E, 0x3059] @ ascii '' ```issue``` '' @
     [0x30D5, 0x30A1, 0x30A4, 0x30EB] @ ascii '' ```code with Execute``` '' @
     [0x691C, 0x7D22, 0x3057, 0x307E, 0x3059]"
    by (simp add: translate_markdown_like_def split_md_blocks_def re_split.simps match_here_def
        fence_def ascii_def translate_parts.simps translate_text_block_def strip_def isspace_def
        offline_env_def rule_based_translate_def reps_def regex_eval replace_def)
  finally have "fst (translate_markdown_like offline_env (document ?blocks ?rest) [] False []) =
     [0x5B9F, 0x884C, 0x3057, 0x307E, 0x3059] @ ascii '' ```issue``` '' @
     [0x30D5, 0x30A1, 0x30A4, 0x30EB] @ ascii '' ```code with Execute``` '' @
     [0x691C, 0x7D22, 0x3057, 0x307E, 0x3059]" .
  with spans show ?thesis unfolding doc by blast
qed

lemma translate_parts_identity:
  "(\<And>part l. fst (translate_text_block env part glossary bilingual l) = part) \<Longrightarrow>
     fst (translate_parts env spans glossary bilingual log) = map snd spans"
proof (induction spans arbitrary: log)
  case Nil
  then show ?case by simp
next
  case (Cons span spans)
  obtain kind part where span: "span = (kind, part)" by (cases span)
  show ?case
    using span Cons.prems Cons.IH [OF Cons.prems] by (simp add: translate_parts_Cons)
qed

text \<open>
  C4. For every string, the contents of the spans \<open>split_md_blocks\<close> yields, concatenated in
  order, are the string; and when \<open>translate_text_block\<close> returns every text as it is (an
  identity translation), \<open>translate_markdown_like\<close> returns its input.
\<close>

theorem segmenter_roundtrip:
  "concat (map snd (split_md_blocks txt)) = txt \<and>
   ((\<forall>part l. fst (translate_text_block env part glossary bilingual l) = part) \<longrightarrow>
      fst (translate_markdown_like env txt glossary bilingual log) = txt)"
  by (simp add: split_md_blocks_concat translate_markdown_like_concat translate_parts_identity)

text \<open>
  C4 at a document with a closed block and an unclosed fence, where the selected backend
  answers every text with the text itself.
\<close>

theorem segmenter_roundtrip_witness:
  "concat (map snd (split_md_blocks (ascii ''Search ```x``` Search ```y''))) =
     ascii ''Search ```x``` Search ```y'' \<and>
   fst (translate_markdown_like echo_env (ascii ''Search ```x``` Search ```y'') [] False []) =
     ascii ''Search ```x``` Search ```y''"
proof -
  have "\<forall>part l. fst (translate_text_block echo_env part [] False l) = part"
    by (simp add: translate_text_block_def echo_env_def)
  with segmenter_roundtrip [of "ascii ''Search ```x``` Search ```y''" echo_env "[]" False "[]"]
  show ?thesis by blast
qed

section \<open>The JSON walker\<close>

lemma dict_set_fresh: "k \<notin> fst ` set d \<Longrightarrow> dict_set d k v = d @ [(k, v)]"
  by (induction d) auto

lemma fold_dict_shape:
  fixes F :: "'k \<Rightarrow> 'v \<Rightarrow> 's \<Rightarrow> 'w \<times> 's"
  assumes "distinct (map fst obj)"
    and "fst ` set obj \<inter> fst ` set acc = {}"
    and "\<And>k v s. (k, v) \<in> set obj \<Longrightarrow> R k v (fst (F k v s))"
  shows "\<exists>new. fst (fold (\<lambda>(k, v) (new, s). (dict_set new k (fst (F k v s)), snd (F k v s))) obj (acc, s0)) = acc @ new \<and>
           list_all2 (\<lambda>kv kv'. fst kv' = fst kv \<and> R (fst kv) (snd kv) (snd kv')) obj new"
  using assms
proof (induction obj arbitrary: acc s0)
  case Nil
  then show ?case by simp
next
  case (Cons kv obj)
  obtain k v where kv: "kv = (k, v)" by (cases kv)
  let ?acc = "acc @ [(k, fst (F k v s0))]"
  have fresh: "k \<notin> fst ` set acc" using Cons.prems(2) kv by auto
  have d: "distinct (map fst obj)" using Cons.prems(1) by simp
  have disj: "fst ` set obj \<inter> fst ` set ?acc = {}"
    using Cons.prems(1,2) kv by (auto simp: image_iff)
  have r: "\<And>k v s. (k, v) \<in> set obj \<Longrightarrow> R k v (fst (F k v s))"
    using Cons.prems(3) by simp
  from Cons.IH [OF d disj r, of "snd (F k v s0)"] obtain new where
    new: "fst (fold (\<lambda>(k, v) (new, s). (dict_set new k (fst (F k v s)), snd (F k v s))) obj (?acc, snd (F k v s0))) = ?acc @ new"
      "list_all2 (\<lambda>kv kv'. fst kv' = fst kv \<and> R (fst kv) (snd kv) (snd kv')) obj new"
    by blast
  have "R k v (fst (F k v s0))" using Cons.prems(3) kv by simp
  with new kv fresh show ?case
    by (intro exI [of _ "(k, fst (F k v s0)) # new"]) (simp add: dict_set_fresh)
qed

lemma fold_list_shape:
  fixes F :: "'a \<Rightarrow> 's \<Rightarrow> 'b \<times> 's"
  assumes "\<And>x s. x \<in> set xs \<Longrightarrow> Q x (fst (F x s))"
  shows "\<exists>ys. fst (fold (\<lambda>x (new, s). (new @ [fst (F x s)], snd (F x s))) xs (acc, s0)) = acc @ ys \<and>
           list_all2 Q xs ys"
  using assms
proof (induction xs arbitrary: acc s0)
  case Nil
  then show ?case by simp
next
  case (Cons x xs)
  have q: "\<And>x s. x \<in> set xs \<Longrightarrow> Q x (fst (F x s))" using Cons.prems by simp
  from Cons.IH [OF q, of "acc @ [fst (F x s0)]" "snd (F x s0)"] obtain ys where
    "fst (fold (\<lambda>x (new, s). (new @ [fst (F x s)], snd (F x s))) xs (acc @ [fst (F x s0)], snd (F x s0))) =
       (acc @ [fst (F x s0)]) @ ys" "list_all2 Q xs ys"
    by blast
  moreover have "Q x (fst (F x s0))" using Cons.prems by simp
  ultimately show ?case
    by (intro exI [of _ "fst (F x s0) # ys"]) simp
qed

lemma translate_json_descriptions_JDict:
  "translate_json_descriptions env (JDict obj) glossary bilingual log =
     (JDict (fst (fold (\<lambda>(k, v) (new, log).
                (dict_set new k (fst (translate_value env glossary bilingual k v log)),
                 snd (translate_value env glossary bilingual k v log))) obj ([], log))),
      snd (fold (\<lambda>(k, v) (new, log).
                (dict_set new k (fst (translate_value env glossary bilingual k v log)),
                 snd (translate_value env glossary bilingual k v log))) obj ([], log)))"
proof -
  have "(\<lambda>(k, v) (new, log).
                case (k = ascii ''description'', v) of
                  (True, JStr s) \<Rightarrow>
                    let (t, log') = translate_text_block env s glossary bilingual log
                    in (dict_set new k (JStr t), log')
                | _ \<Rightarrow>
                    let (v', log') = translate_json_descriptions env v glossary bilingual log
                    in (dict_set new k v', log'))
     = (\<lambda>(k, v) (new, log).
                (dict_set new k (fst (translate_value env glossary bilingual k v log)),
                 snd (translate_value env glossary bilingual k v log)))"
    by (auto simp: fun_eq_iff translate_value_def split_beta split: json.splits bool.splits)
  then show ?thesis by (simp add: split_beta)
qed

lemma translate_json_descriptions_JList:
  "translate_json_descriptions env (JList xs) glossary bilingual log =
     (JList (fst (fold (\<lambda>x (new, log).
                (new @ [fst (translate_json_descriptions env x glossary bilingual log)],
                 snd (translate_json_descriptions env x glossary bilingual log))) xs ([], log))),
      snd (fold (\<lambda>x (new, log).
                (new @ [fst (translate_json_descriptions env x glossary bilingual log)],
                 snd (translate_json_descriptions env x glossary bilingual log))) xs ([], log)))"
  by (simp add: split_beta)

declare translate_json_descriptions.simps(1,2) [simp del]

text \<open>
  C5. For every JSON value with no repeated key in a mapping, \<open>translate_json_descriptions\<close>
  meets the specification of the walk: every mapping of the output has the keys of the
  input's, in the same order; every sequence has the same length, its elements in the same
  order; a string that is the direct value of the key \<^verbatim>\<open>description\<close> is replaced by a value
  \<open>translate_text_block\<close> returns for it; every other scalar is unchanged.
\<close>

theorem json_shape_preserved:
  "wf_json obj \<Longrightarrow>
     walk_spec (\<lambda>s t. \<exists>l. t = fst (translate_text_block env s glossary bilingual l)) obj
       (fst (translate_json_descriptions env obj glossary bilingual log))"
proof (induction obj arbitrary: log)
  case (JDict obj)
  let ?T = "\<lambda>s t. \<exists>l. t = fst (translate_text_block env s glossary bilingual l)"
  let ?R = "\<lambda>k v v'. case (k = ascii ''description'', v) of
                 (True, JStr s) \<Rightarrow> (case v' of JStr t \<Rightarrow> ?T s t | _ \<Rightarrow> False)
               | _ \<Rightarrow> walk_spec ?T v v'"
  have d: "distinct (map fst obj)" using JDict.prems by simp
  have r: "?R k v (fst (translate_value env glossary bilingual k v l))" if "(k, v) \<in> set obj" for k v l
  proof -
    have "wf_json v" using that JDict.prems by auto
    moreover have "v \<in> Basic_BNFs.snds (k, v)" by simp
    ultimately have ws: "walk_spec ?T v (fst (translate_json_descriptions env v glossary bilingual l))"
      using JDict.IH that by blast
    show ?thesis
    proof (cases "k = ascii ''description''")
      case True
      show ?thesis
      proof (cases v)
        case (JStr s)
        with True show ?thesis by (auto simp: translate_value_def)
      qed (use True ws in \<open>simp_all add: translate_value_def\<close>)
    next
      case False
      with ws show ?thesis by (simp add: translate_value_def)
    qed
  qed
  from fold_dict_shape [where R = ?R and acc = "[]" and F = "translate_value env glossary bilingual"
      and obj = obj and ?s0.0 = log, OF d _ r]
  obtain new where
    "fst (fold (\<lambda>(k, v) (new, log).
                (dict_set new k (fst (translate_value env glossary bilingual k v log)),
                 snd (translate_value env glossary bilingual k v log))) obj ([], log)) = new"
    "list_all2 (\<lambda>kv kv'. fst kv' = fst kv \<and> ?R (fst kv) (snd kv) (snd kv')) obj new"
    by auto
  then show ?case by (simp add: translate_json_descriptions_JDict)
next
  case (JList xs)
  let ?T = "\<lambda>s t. \<exists>l. t = fst (translate_text_block env s glossary bilingual l)"
  have q: "walk_spec ?T x (fst (translate_json_descriptions env x glossary bilingual l))"
    if "x \<in> set xs" for x l
    using that JList by auto
  from fold_list_shape [where Q = "walk_spec ?T" and acc = "[]"
      and F = "\<lambda>x. translate_json_descriptions env x glossary bilingual" and xs = xs and ?s0.0 = log, OF q]
  obtain ys where
    "fst (fold (\<lambda>x (new, log).
                (new @ [fst (translate_json_descriptions env x glossary bilingual log)],
                 snd (translate_json_descriptions env x glossary bilingual log))) xs ([], log)) = ys"
    "list_all2 (walk_spec ?T) xs ys"
    by auto
  then show ?case by (simp add: translate_json_descriptions_JList)
qed simp_all

lemma json_example:
  "fst (translate_json_descriptions offline_env
      (JDict [(ascii ''description'', JStr (ascii ''Creates files'')),
              (ascii ''title'', JStr (ascii ''Creates files''))]) [] False []) =
   JDict [(ascii ''description'',
             JStr ([0x4F5C, 0x6210, 0x3057, 0x307E, 0x3059] @ ascii '' '' @ [0x30D5, 0x30A1, 0x30A4, 0x30EB])),
          (ascii ''title'', JStr (ascii ''Creates files''))]"
  by (simp add: translate_json_descriptions.simps ascii_def translate_text_block_def strip_def
      isspace_def offline_env_def rule_based_translate_def reps_def regex_eval replace_def)

text \<open>
  C5 at \<^verbatim>\<open>{"description": "Creates files", "title": "Creates files"}\<close> with no backend
  selected: the description is translated and the title is as it was.
\<close>

theorem json_shape_preserved_witness:
  "wf_json (JDict [(ascii ''description'', JStr (ascii ''Creates files'')),
                   (ascii ''title'', JStr (ascii ''Creates files''))]) \<and>
   walk_spec (\<lambda>s t. \<exists>l. t = fst (translate_text_block offline_env s [] False l))
     (JDict [(ascii ''description'', JStr (ascii ''Creates files'')),
             (ascii ''title'', JStr (ascii ''Creates files''))])
     (fst (translate_json_descriptions offline_env
        (JDict [(ascii ''description'', JStr (ascii ''Creates files'')),
                (ascii ''title'', JStr (ascii ''Creates files''))]) [] False [])) \<and>
   fst (translate_json_descriptions offline_env
      (JDict [(ascii ''description'', JStr (ascii ''Creates files'')),
              (ascii ''title'', JStr (ascii ''Creates files''))]) [] False []) =
   JDict [(ascii ''description'',
             JStr ([0x4F5C, 0x6210, 0x3057, 0x307E, 0x3059] @ ascii '' '' @ [0x30D5, 0x30A1, 0x30A4, 0x30EB])),
          (ascii ''title'', JStr (ascii ''Creates files''))]"
proof -
  have h: "wf_json (JDict [(ascii ''description'', JStr (ascii ''Creates files'')),
                   (ascii ''title'', JStr (ascii ''Creates files''))])"
    by (simp add: ascii_def)
  show ?thesis
    using h json_shape_preserved [OF h, of offline_env "[]" False "[]"] json_example by blast
qed

section \<open>The glossary loader\<close>

text \<open>
  C7 at a glossary file with a row that has one field where the header has two,
  \<^verbatim>\<open>en,ja / file,F / Search / tool,T\<close>: the short row is not skipped.
  \<^verbatim>\<open>csv.DictReader\<close> gives it \<^verbatim>\<open>None\<close> for \<^verbatim>\<open>ja\<close>, the default of \<^verbatim>\<open>row.get("ja","")\<close> does not
  apply to a key that is present, and \<^verbatim>\<open>.strip()\<close> raises \<^verbatim>\<open>AttributeError\<close>: no glossary
  is returned, the rows before and after the short one are lost with it.
\<close>

theorem load_glossary_short_row:
  "load_glossary (Some [[ascii ''en'', ascii ''ja''], [ascii ''file'', ascii ''F''],
                        [ascii ''Search''], [ascii ''tool'', ascii ''T'']]) =
     Inl AttributeError"
  by (simp add: load_glossary_def dict_reader_row_def dict_get_def strip_def isspace_def ascii_def)

text \<open>
  The other parts of C7 on a file of full rows: an absent file gives the empty glossary,
  a blank line, a row with an empty term and the surplus field of a long row are passed
  over, and the later of two rows for the same source term gives its target.
\<close>

lemma load_glossary_sound_rows:
  "load_glossary None = Inr [] \<and>
   load_glossary (Some [[ascii ''en'', ascii ''ja''], [ascii ''file'', ascii ''F''], [],
                        [ascii ''tool'', []], [ascii ''file'', ascii '' G ''],
                        [ascii ''a'', ascii ''b'', ascii ''c'']]) =
     Inr [(ascii ''file'', ascii ''G''), (ascii ''a'', ascii ''b'')]"
  by (simp add: load_glossary_def dict_reader_row_def dict_get_def strip_def isspace_def ascii_def)

end
